theory Spec2Isabelle
  imports Main
begin

section \<open>Strings and JavaScript string primitives\<close>

text \<open>
  JavaScript strings are modelled as \<^typ>\<open>string\<close>. Every character the naming code
  treats specially (\<open>/\<close>, \<open>\\<close>, \<open>.\<close>, \<open>_\<close>, \<open>-\<close>, ASCII letters and digits) is a
  single ASCII character; every other character is outside \<open>\w\<close> (the regular expression
  has no unicode flag), so a run of non-ASCII text is a run of unsafe characters in
  either representation.
\<close>

definition isWordChar :: "char \<Rightarrow> bool" where
  \<comment> \<open>the class \<open>\w\<close>: \<open>[A-Za-z0-9_]\<close>\<close>
  "isWordChar c =
     (let n = (of_char c :: nat)
      in (65 \<le> n \<and> n \<le> 90) \<or> (97 \<le> n \<and> n \<le> 122) \<or> (48 \<le> n \<and> n \<le> 57) \<or> n = 95)"

definition isSafeChar :: "char \<Rightarrow> bool" where
  \<comment> \<open>the complement of the class \<open>[^\w\-._]\<close>\<close>
  "isSafeChar c = (isWordChar c \<or> c = CHR ''-'' \<or> c = CHR ''.'' \<or> c = CHR ''_'')"

definition safeClass :: string where
  \<comment> \<open>the class \<open>[A-Za-z0-9._-]\<close> as the spec writes it, member by member: the letters,
      the digits, and the three characters \<open>.\<close>, \<open>_\<close> and \<open>-\<close>\<close>
  "safeClass = ''ABCDEFGHIJKLMNOPQRSTUVWXYZabcdefghijklmnopqrstuvwxyz0123456789._-''"

definition isPathSep :: "char \<Rightarrow> bool" where
  \<comment> \<open>the class \<open>[\/\\]\<close>\<close>
  "isPathSep c = (c = CHR ''/'' \<or> c = CHR 0x5C)"

fun splitOn :: "(char \<Rightarrow> bool) \<Rightarrow> string \<Rightarrow> string list" where
  \<comment> \<open>\<open>String.prototype.split\<close> with a one-character separator class: the empty string
      gives one empty part\<close>
  "splitOn p [] = [[]]"
| "splitOn p (c # cs) =
     (if p c then [] # splitOn p cs
      else (case splitOn p cs of [] \<Rightarrow> [[c]] | w # ws \<Rightarrow> (c # w) # ws))"

fun join :: "string \<Rightarrow> string list \<Rightarrow> string" where
  \<comment> \<open>\<open>Array.prototype.join\<close>\<close>
  "join sep [] = []"
| "join sep [x] = x"
| "join sep (x # y # ys) = x @ sep @ join sep (y # ys)"

fun pop :: "'a list \<Rightarrow> 'a option \<times> 'a list" where
  \<comment> \<open>\<open>Array.prototype.pop\<close>: the removed last element (\<open>undefined\<close> on an empty array)
      and the array that is left\<close>
  "pop [] = (None, [])"
| "pop (x # xs) = (Some (last (x # xs)), butlast (x # xs))"

fun orElse :: "string option \<Rightarrow> string \<Rightarrow> string" where
  \<comment> \<open>\<open>v || d\<close> on a string or \<open>undefined\<close>: the empty string and \<open>undefined\<close> are falsy\<close>
  "orElse None d = d"
| "orElse (Some s) d = (if s = [] then d else s)"

fun lastIndexOf :: "char \<Rightarrow> string \<Rightarrow> int" where
  \<comment> \<open>\<open>String.prototype.lastIndexOf\<close> of one character: \<open>-1\<close> when absent\<close>
  "lastIndexOf c [] = - 1"
| "lastIndexOf c (x # xs) =
     (let r = lastIndexOf c xs
      in if r \<noteq> - 1 then r + 1 else if x = c then 0 else - 1)"

definition substring :: "string \<Rightarrow> int \<Rightarrow> int \<Rightarrow> string" where
  \<comment> \<open>\<open>String.prototype.substring(start, end)\<close>: both indices are clamped to the string
      and swapped when out of order\<close>
  "substring s a b =
     (let n = int (length s);
          a' = max 0 (min a n);
          b' = max 0 (min b n);
          lo = min a' b';
          hi = max a' b'
      in take (nat (hi - lo)) (drop (nat lo) s))"

definition substringFrom :: "string \<Rightarrow> int \<Rightarrow> string" where
  \<comment> \<open>\<open>String.prototype.substring(start)\<close>\<close>
  "substringFrom s a = substring s a (int (length s))"

definition digitChar :: "nat \<Rightarrow> char" where
  "digitChar d = ''0123456789'' ! d"

fun showNat :: "nat \<Rightarrow> string" where
  \<comment> \<open>a non-negative integer inside a template literal: its decimal digits\<close>
  "showNat n =
     (if n < 10 then [digitChar n] else showNat (n div 10) @ [digitChar (n mod 10)])"

declare showNat.simps [simp del]

definition toLowerChar :: "char \<Rightarrow> char" where
  "toLowerChar c =
     (let n = (of_char c :: nat) in if 65 \<le> n \<and> n \<le> 90 then char_of (n + 32) else c)"

definition toLowerCase :: "string \<Rightarrow> string" where
  "toLowerCase s = map toLowerChar s"

section \<open>The allocation set\<close>

text \<open>
  \<open>usedNames\<close> is a JavaScript \<open>Set\<close> of strings, mutated in place. It is modelled as the
  list of its elements in insertion order, passed in and returned; the code only asks
  \<open>has\<close> and \<open>add\<close>.
\<close>

type_synonym usedNames = "string list"

definition has :: "usedNames \<Rightarrow> string \<Rightarrow> bool" where
  "has usedNames x = (x \<in> set usedNames)"

definition add :: "usedNames \<Rightarrow> string \<Rightarrow> usedNames" where
  "add usedNames x = (if x \<in> set usedNames then usedNames else usedNames @ [x])"

section \<open>Sanitizer and path composition\<close>

function sanitizeComponent :: "string \<Rightarrow> string" where
  \<comment> \<open>\<open>component.replace(/[^\w\-._]+/g, "_")\<close>: the greedy \<open>+\<close> takes a whole run\<close>
  "sanitizeComponent [] = []"
| "sanitizeComponent (c # cs) =
     (if isSafeChar c then c # sanitizeComponent cs
      else CHR ''_'' # sanitizeComponent (dropWhile (\<lambda>d. \<not> isSafeChar d) cs))"
  by pat_completeness auto
termination
  by (relation "measure length") (auto simp: less_Suc_eq_le length_dropWhile_le)

definition sanitizePathComponents :: "string \<Rightarrow> string \<times> string" where
  \<comment> \<open>returns \<open>(sanitizedPath, sanitizedFilename)\<close>\<close>
  "sanitizePathComponents title =
     (let (popped, parts) = pop (splitOn isPathSep title);
          filename = orElse popped ''untitled'';
          sanitizedPathParts = map sanitizeComponent parts;
          sanitizedPath = join ''/'' sanitizedPathParts;
          sanitizedFilename = sanitizeComponent filename
      in (sanitizedPath, sanitizedFilename))"

fun indexPlusOne :: "nat option \<Rightarrow> string" where
  \<comment> \<open>the text of \<open>${messageIndex + 1}\<close>. \<open>None\<close> is \<open>undefined\<close>: \<open>undefined + 1\<close> is \<open>NaN\<close>.
      \<open>Some n\<close> is the non-negative integer \<open>n\<close>; a JavaScript number counts exactly up
      to \<open>2^53\<close>, so the sum is \<open>n + 1\<close> and prints in decimal for \<open>n < 2^53\<close>, which is
      the range the statements about the printed index are restricted to\<close>
  "indexPlusOne None = ''NaN''"
| "indexPlusOne (Some n) = showNat (n + 1)"

definition constructFilePath ::
    "string \<Rightarrow> string \<Rightarrow> string \<Rightarrow> nat option \<Rightarrow> bool \<Rightarrow> string" where
  "constructFilePath path filename extension messageIndex useDirectoryStructure =
     (if useDirectoryStructure
      then (if path \<noteq> [] then path @ ''/'' @ filename @ extension else filename @ extension)
      else indexPlusOne messageIndex @ ''_'' @ filename @ extension)"

section \<open>Extension resolution\<close>

datatype language = Null | Undefined | Str string

text \<open>
  Modelled from the spec: \<open>getFileExtension\<close> is defined in \<open>background.js\<close>, which is not
  among the sources; only its tests are. The spec's ExtensionResolver: a case-insensitive
  lookup in the fixed table \<open>languageToExt\<close> (the entries the spec and the tests
  list), and \<open>.txt\<close> for a falsy (empty, \<open>null\<close>, \<open>undefined\<close>) or unrecognized tag.
\<close>

definition languageToExt :: "(string \<times> string) list" where
  "languageToExt =
     [(''javascript'', ''.js''), (''typescript'', ''.ts''), (''html'', ''.html''),
      (''css'', ''.css''), (''python'', ''.py''), (''java'', ''.java''), (''c'', ''.c''),
      (''cpp'', ''.cpp''), (''ruby'', ''.rb''), (''php'', ''.php''), (''swift'', ''.swift''),
      (''go'', ''.go''), (''rust'', ''.rs''), (''shell'', ''.sh''), (''sql'', ''.sql''),
      (''kotlin'', ''.kt''), (''scala'', ''.scala''), (''r'', ''.r''), (''matlab'', ''.m'')]"

fun getFileExtension :: "language \<Rightarrow> string" where
  "getFileExtension Null = ''.txt''"
| "getFileExtension Undefined = ''.txt''"
| "getFileExtension (Str l) =
     (if l = [] then ''.txt''
      else (case map_of languageToExt (toLowerCase l) of
              None \<Rightarrow> ''.txt''
            | Some ext \<Rightarrow> ext))"

section \<open>Collision resolution\<close>

definition candidateName :: "string \<Rightarrow> string \<Rightarrow> string \<Rightarrow> nat \<Rightarrow> string" where
  \<comment> \<open>the template literal \<open>${basePath}${name}_${counter}${ext}\<close>\<close>
  "candidateName basePath name ext counter = basePath @ name @ ''_'' @ showNat counter @ ext"

lemma showNat_bound: "n < 10 ^ length (showNat n)"
proof (induction n rule: showNat.induct)
  case (1 n)
  show ?case
  proof (cases "n < 10")
    case True
    then show ?thesis by (subst showNat.simps) simp
  next
    case False
    then have "n div 10 < 10 ^ length (showNat (n div 10))"
      using 1 by simp
    then have "n < 10 * 10 ^ length (showNat (n div 10))"
      by linarith
    with False show ?thesis by (subst showNat.simps) simp
  qed
qed

lemma used_counter_bound:
  assumes "candidateName basePath name ext counter \<in> set usedNames"
  shows "counter < 10 ^ sum_list (map length usedNames)"
proof -
  have "length (candidateName basePath name ext counter) \<le> sum_list (map length usedNames)"
    using assms by (simp add: member_le_sum_list)
  then have "length (showNat counter) \<le> sum_list (map length usedNames)"
    by (simp add: candidateName_def)
  then have "(10::nat) ^ length (showNat counter) \<le> 10 ^ sum_list (map length usedNames)"
    by (simp add: power_increasing)
  with showNat_bound [of counter] show ?thesis
    by linarith
qed

function makeUnique_loop :: "string \<Rightarrow> string \<Rightarrow> string \<Rightarrow> usedNames \<Rightarrow> nat \<Rightarrow> string" where
  \<comment> \<open>the \<open>do ... while (usedNames.has(uniqueName))\<close> loop, entered with the current
      \<open>counter\<close>; the counter is bounded by the number of allocated names, so it stays an
      exact integer and prints in decimal\<close>
  "makeUnique_loop basePath name ext usedNames counter =
     (let uniqueName = candidateName basePath name ext counter
      in if has usedNames uniqueName
         then makeUnique_loop basePath name ext usedNames (counter + 1)
         else uniqueName)"
  by pat_completeness auto
termination
proof (relation "measure (\<lambda>(basePath, name, ext, usedNames, counter).
                   10 ^ sum_list (map length usedNames) - counter)")
  show "wf (measure (\<lambda>(basePath, name, ext, usedNames, counter).
                   10 ^ sum_list (map length usedNames) - counter))"
    by simp
next
  fix basePath name ext :: string and usedNames :: usedNames and counter :: nat and x :: string
  assume "x = candidateName basePath name ext counter" and "has usedNames x"
  then have "counter < 10 ^ sum_list (map length usedNames)"
    using used_counter_bound by (simp add: has_def)
  then show "((basePath, name, ext, usedNames, counter + 1), (basePath, name, ext, usedNames, counter))
      \<in> measure (\<lambda>(basePath, name, ext, usedNames, counter).
                   10 ^ sum_list (map length usedNames) - counter)"
    by simp
qed

declare makeUnique_loop.simps [simp del]

definition makeUnique :: "string \<Rightarrow> usedNames \<Rightarrow> string" where
  "makeUnique fileName usedNames =
     (let lastSlashIndex = lastIndexOf CHR ''/'' fileName;
          basePath = (if lastSlashIndex \<noteq> - 1
                      then substring fileName 0 (lastSlashIndex + 1) else []);
          baseFilename = (if lastSlashIndex \<noteq> - 1
                          then substringFrom fileName (lastSlashIndex + 1) else fileName);
          lastDotIndex = lastIndexOf CHR ''.'' baseFilename;
          name = (if lastDotIndex \<noteq> - 1
                  then substring baseFilename 0 lastDotIndex else baseFilename);
          ext = (if lastDotIndex \<noteq> - 1
                 then substringFrom baseFilename lastDotIndex else [])
      in makeUnique_loop basePath name ext usedNames 1)"

section \<open>The naming engine\<close>

definition getUniqueFileName ::
    "string \<Rightarrow> language \<Rightarrow> nat \<Rightarrow> usedNames \<Rightarrow> bool \<Rightarrow> string \<times> usedNames" where
  \<comment> \<open>returns the file name and the updated \<open>usedNames\<close>; \<open>messageIndex\<close> is the
      \<open>index\<close> field of a message, a number\<close>
  "getUniqueFileName title lang messageIndex usedNames useDirectoryStructure =
     (let (sanitizedPath, sanitizedFilename) = sanitizePathComponents title;
          extension = getFileExtension lang;
          fileName = constructFilePath sanitizedPath sanitizedFilename extension
                       (Some messageIndex) useDirectoryStructure;
          fileName = (if has usedNames fileName then makeUnique fileName usedNames
                      else fileName)
      in (fileName, add usedNames fileName))"

record artifactRef =
  art_title :: string
  art_language :: language
  art_index :: nat

fun assignAll :: "artifactRef list \<Rightarrow> usedNames \<Rightarrow> bool \<Rightarrow> string list \<times> usedNames" where
  \<comment> \<open>one run: the artifacts are named in order through \<open>getUniqueFileName\<close>, all calls
      sharing \<open>usedNames\<close> and the layout flag; returns the paths in order and the final
      set\<close>
  "assignAll [] usedNames useDirectoryStructure = ([], usedNames)"
| "assignAll (a # as) usedNames useDirectoryStructure =
     (let (path, usedNames') =
            getUniqueFileName (art_title a) (art_language a) (art_index a) usedNames
              useDirectoryStructure;
          (paths, usedNames'') = assignAll as usedNames' useDirectoryStructure
      in (path # paths, usedNames''))"

definition isSlash :: "char \<Rightarrow> bool" where
  "isSlash c = (c = CHR ''/'')"

definition isDot :: "char \<Rightarrow> bool" where
  "isDot c = (c = CHR ''.'')"

definition segments :: "string \<Rightarrow> string list" where
  \<comment> \<open>the \<open>/\<close>-separated segments of a path\<close>
  "segments path = splitOn isSlash path"

definition directorySegments :: "string \<Rightarrow> string list" where
  \<comment> \<open>every segment but the last, which is the leaf name with its extension\<close>
  "directorySegments path = butlast (segments path)"

section \<open>The array-based collision resolver\<close>

definition compose :: "('a \<Rightarrow> 'a) list \<Rightarrow> 'a \<Rightarrow> 'a" where
  \<comment> \<open>\<open>fns.reduce((y, fn) => fn(y), arg)\<close>: the first function is applied first\<close>
  "compose fns arg = foldl (\<lambda>y fn. fn y) arg fns"

definition pipe :: "('a \<Rightarrow> 'a) list \<Rightarrow> 'a \<Rightarrow> 'a" where
  \<comment> \<open>\<open>fns.reduceRight((y, fn) => fn(y), arg)\<close>: the last function is applied first\<close>
  "pipe fns arg = foldr (\<lambda>fn y. fn y) fns arg"

definition append_js :: "string \<Rightarrow> string \<Rightarrow> string \<Rightarrow> string" where
  \<comment> \<open>\<open>append = separator => suffix => base => [base, suffix].join(separator)\<close>\<close>
  "append_js separator suffix base = join separator [base, suffix]"

definition prepend :: "string \<Rightarrow> string \<Rightarrow> string \<Rightarrow> string" where
  \<comment> \<open>\<open>prepend = separator => base => suffix => [base, suffix].join(separator)\<close>\<close>
  "prepend separator base suffix = join separator [base, suffix]"

definition starName :: "string \<Rightarrow> string \<Rightarrow> string \<Rightarrow> string \<Rightarrow> string" where
  \<comment> \<open>one pass of the loop body: \<open>makeUniqueName(baseFilename)\<close> for the current
      \<open>uniqueSuffix\<close>\<close>
  "starName baseFilename ext basePath uniqueSuffix =
     (let appendExt = append_js ''.'' ext;
          prependPath = append_js ''/'' basePath;
          appendSuffix = append_js ''_'' uniqueSuffix;
          makeUniqueName = pipe [appendSuffix, appendExt, prependPath]
      in makeUniqueName baseFilename)"

lemma starName_length: "length uniqueSuffix \<le> length (starName baseFilename ext basePath uniqueSuffix)"
  by (simp add: starName_def pipe_def append_js_def)

function makeUniqueWithArrays_loop ::
    "string \<Rightarrow> string \<Rightarrow> string \<Rightarrow> usedNames \<Rightarrow> string \<Rightarrow> string" where
  "makeUniqueWithArrays_loop baseFilename ext basePath usedNames uniqueSuffix =
     (let uniqueName = starName baseFilename ext basePath uniqueSuffix
      in if has usedNames uniqueName
         then makeUniqueWithArrays_loop baseFilename ext basePath usedNames (uniqueSuffix @ ''*'')
         else uniqueName)"
  by pat_completeness auto
termination
proof (relation "measure (\<lambda>(baseFilename, ext, basePath, usedNames, uniqueSuffix).
                   Suc (sum_list (map length usedNames)) - length uniqueSuffix)")
  show "wf (measure (\<lambda>(baseFilename, ext, basePath, usedNames, uniqueSuffix).
                   Suc (sum_list (map length usedNames)) - length uniqueSuffix))"
    by simp
next
  fix baseFilename ext basePath :: string and usedNames :: usedNames
    and uniqueSuffix x :: string
  assume "x = starName baseFilename ext basePath uniqueSuffix" and "has usedNames x"
  then have "length (starName baseFilename ext basePath uniqueSuffix)
      \<le> sum_list (map length usedNames)"
    by (simp add: has_def member_le_sum_list)
  with starName_length [of uniqueSuffix baseFilename ext basePath]
  have "length uniqueSuffix \<le> sum_list (map length usedNames)"
    by linarith
  then show "((baseFilename, ext, basePath, usedNames, uniqueSuffix @ ''*''),
       (baseFilename, ext, basePath, usedNames, uniqueSuffix))
      \<in> measure (\<lambda>(baseFilename, ext, basePath, usedNames, uniqueSuffix).
                   Suc (sum_list (map length usedNames)) - length uniqueSuffix)"
    by simp
qed

declare makeUniqueWithArrays_loop.simps [simp del]

definition makeUniqueWithArrays :: "string \<Rightarrow> usedNames \<Rightarrow> string" where
  "makeUniqueWithArrays fileName usedNames =
     (let (popped, pathParts) = pop (splitOn isSlash fileName);
          filenamePart = orElse popped [];
          basePath = join ''/'' pathParts;
          filenameParts = splitOn isDot filenamePart;
          (ext, filenameParts) =
             (if length filenameParts > 1
              then (case pop filenameParts of
                      (None, rest) \<Rightarrow> ([], rest)
                    | (Some e, rest) \<Rightarrow> (e, rest))
              else ([], filenameParts));
          baseFilename = join ''.'' filenameParts
      in makeUniqueWithArrays_loop baseFilename ext basePath usedNames ''*'')"

section \<open>The path composer of the spec\<close>

datatype LayoutPolicy = Flat | DirectoryStructure

definition leafOf :: "string \<Rightarrow> string" where
  \<comment> \<open>the last segment of the raw title; an empty title has no segment and an empty leaf\<close>
  "leafOf rawTitle = (if rawTitle = [] then [] else last (splitOn isPathSep rawTitle))"

definition directoriesOf :: "string \<Rightarrow> string list" where
  "directoriesOf rawTitle = (if rawTitle = [] then [] else butlast (splitOn isPathSep rawTitle))"

text \<open>
  Modelled from the spec: \<open>inferDirectoryStructure\<close>, the composer behind the spec's
  \<open>compose (rawTitle, extension, ordinalIndex, suffix, policy)\<close>, is defined in
  \<open>background.js\<close>, which is not among the sources; only its tests are. From the spec's
  PathComposer: the title is split on \<open>/\<close> and \<open>\\<close>, the last segment is the leaf,
  every segment is sanitized on its own; the leaf is preceded by \<open>n+1\<close> and \<open>_\<close> when an
  index \<open>n\<close> is given and by nothing when it is \<open>undefined\<close>, and followed by the suffix
  (when given) and the extension; Flat drops the directory segments, DirectoryStructure
  keeps them as nested \<open>/\<close> segments.
\<close>

definition PathComposer_compose ::
    "string \<Rightarrow> string \<Rightarrow> nat option \<Rightarrow> string option \<Rightarrow> LayoutPolicy \<Rightarrow> string" where
  "PathComposer_compose rawTitle extension ordinalIndex suffix policy =
     (let sanitizedLeaf = sanitizeComponent (leafOf rawTitle);
          sanitizedDirs = map sanitizeComponent (directoriesOf rawTitle);
          indexPrefix = (case ordinalIndex of None \<Rightarrow> [] | Some n \<Rightarrow> showNat (n + 1) @ ''_'');
          suffixText = (case suffix of None \<Rightarrow> [] | Some s \<Rightarrow> s);
          leafName = indexPrefix @ sanitizedLeaf @ suffixText @ extension
      in case policy of
           Flat \<Rightarrow> leafName
         | DirectoryStructure \<Rightarrow> join ''/'' (sanitizedDirs @ [leafName]))"

section \<open>The sanitizer is idempotent\<close>

lemma sanitizeComponent_safe: "c \<in> set (sanitizeComponent s) \<Longrightarrow> isSafeChar c"
  by (induction s rule: sanitizeComponent.induct) (auto simp: isSafeChar_def split: if_splits)

lemma sanitizeComponent_fixed: "(\<And>c. c \<in> set s \<Longrightarrow> isSafeChar c) \<Longrightarrow> sanitizeComponent s = s"
  by (induction s) auto

lemma isSafeChar_safeClass: "isSafeChar c = (c \<in> set safeClass)"
proof -
  have "\<forall>c. isSafeChar c = (c \<in> set safeClass)"
    by code_simp
  then show ?thesis ..
qed

lemma sanitizeComponent_run:
  assumes "\<And>c. c \<in> set pre \<Longrightarrow> isSafeChar c" and "run \<noteq> []"
    and "\<And>c. c \<in> set run \<Longrightarrow> \<not> isSafeChar c" and "rest = [] \<or> isSafeChar (hd rest)"
  shows "sanitizeComponent (pre @ run @ rest) = pre @ ''_'' @ sanitizeComponent rest"
  using assms(1)
proof (induction pre)
  case Nil
  from assms(2) obtain r rs where run: "run = r # rs"
    by (cases run) auto
  have "dropWhile (\<lambda>d. \<not> isSafeChar d) (rs @ rest) = dropWhile (\<lambda>d. \<not> isSafeChar d) rest"
    using assms(3) run by (intro dropWhile_append2) simp
  also have "\<dots> = rest"
    using assms(4) by (cases rest) auto
  finally show ?case
    using assms(3) run by simp
next
  case (Cons p pre)
  then show ?case by simp
qed

text \<open>
  C9. Sanitizing twice is sanitizing once: for every string \<open>x\<close>,
  \<open>sanitize (sanitize x) = sanitize x\<close>, where \<open>sanitize\<close> replaces each maximal run of
  characters outside \<open>[A-Za-z0-9._-]\<close> by one underscore. The class of the code,
  the complement of \<open>[^\w\-._]\<close>, is that class member by member, the underscore among
  them. A string of characters of the class is left as it is; a non-empty run of
  characters outside it, maximal because it is followed by the end of the string or by a
  character of the class, becomes one underscore, whatever stands before and after. An
  underscore of the input is kept and is not part of a run, so \<open>a _ b\<close> becomes \<open>a___b\<close>
  (two replaced blanks around the kept underscore) and \<open>a__b\<close> stays as it is.
\<close>

theorem sanitizeComponent_idempotent:
  "sanitizeComponent (sanitizeComponent x) = sanitizeComponent x \<and>
   isSafeChar c = (c \<in> set safeClass) \<and>
   ((\<forall>c \<in> set pre. isSafeChar c) \<and> run \<noteq> [] \<and> (\<forall>c \<in> set run. \<not> isSafeChar c) \<and>
      (rest = [] \<or> isSafeChar (hd rest)) \<longrightarrow>
        sanitizeComponent (pre @ run @ rest) = pre @ ''_'' @ sanitizeComponent rest) \<and>
   ((\<forall>c \<in> set s. isSafeChar c) \<longrightarrow> sanitizeComponent s = s) \<and>
   sanitizeComponent ''a _ b'' = ''a___b'' \<and>
   sanitizeComponent ''a__b'' = ''a__b'' \<and>
   sanitizeComponent ''file with spaces!@#$'' = ''file_with_spaces_''"
proof -
  have 1: "sanitizeComponent (sanitizeComponent x) = sanitizeComponent x"
    by (rule sanitizeComponent_fixed) (rule sanitizeComponent_safe)
  have 2: "(\<forall>c \<in> set pre. isSafeChar c) \<and> run \<noteq> [] \<and> (\<forall>c \<in> set run. \<not> isSafeChar c) \<and>
      (rest = [] \<or> isSafeChar (hd rest)) \<longrightarrow>
        sanitizeComponent (pre @ run @ rest) = pre @ ''_'' @ sanitizeComponent rest"
    using sanitizeComponent_run [of pre run rest] by blast
  have 3: "(\<forall>c \<in> set s. isSafeChar c) \<longrightarrow> sanitizeComponent s = s"
    using sanitizeComponent_fixed [of s] by blast
  have 4: "sanitizeComponent ''a _ b'' = ''a___b''"
    by code_simp
  have 5: "sanitizeComponent ''a__b'' = ''a__b''"
    by code_simp
  have 6: "sanitizeComponent ''file with spaces!@#$'' = ''file_with_spaces_''"
    by code_simp
  from 1 isSafeChar_safeClass [of c] 2 3 4 5 6 show ?thesis
    by blast
qed

theorem sanitizeComponent_idempotent_witness:
  "sanitizeComponent (''my_file'' @ ''!?'' @ ''.txt'') = ''my_file_.txt'' \<and>
   sanitizeComponent ''my_file_.txt'' = ''my_file_.txt'' \<and>
   sanitizeComponent (sanitizeComponent ''my file!?.txt'') = sanitizeComponent ''my file!?.txt''"
proof -
  have pre: "\<forall>c \<in> set ''my_file''. isSafeChar c"
  proof -
    have "list_all isSafeChar ''my_file''"
      by code_simp
    then show ?thesis by (simp only: list_all_iff)
  qed
  have run: "\<forall>c \<in> set ''!?''. \<not> isSafeChar c"
  proof -
    have "list_all (\<lambda>c. \<not> isSafeChar c) ''!?''"
      by code_simp
    then show ?thesis by (simp only: list_all_iff)
  qed
  have ne: "''!?'' \<noteq> []"
    by simp
  have rest: "''.txt'' = [] \<or> isSafeChar (hd ''.txt'')"
    by code_simp
  have all: "\<forall>c \<in> set ''my_file_.txt''. isSafeChar c"
  proof -
    have "list_all isSafeChar ''my_file_.txt''"
      by code_simp
    then show ?thesis by (simp only: list_all_iff)
  qed
  from sanitizeComponent_idempotent [of "''my file!?.txt''" "CHR ''_''" "''my_file''" "''!?''" "''.txt''"
      "''my_file_.txt''"] pre run ne rest all
  have a: "sanitizeComponent (''my_file'' @ ''!?'' @ ''.txt'') = ''my_file'' @ ''_'' @ sanitizeComponent ''.txt''"
    and b: "sanitizeComponent ''my_file_.txt'' = ''my_file_.txt''"
    and c: "sanitizeComponent (sanitizeComponent ''my file!?.txt'') = sanitizeComponent ''my file!?.txt''"
    by blast+
  have "sanitizeComponent ''.txt'' = ''.txt''"
    by code_simp
  with a have "sanitizeComponent (''my_file'' @ ''!?'' @ ''.txt'') = ''my_file_.txt''"
    by simp
  with b c show ?thesis
    by blast
qed

section \<open>Uniqueness of the assigned paths\<close>

lemma makeUnique_loop_fresh:
  "makeUnique_loop basePath name ext usedNames counter \<notin> set usedNames"
proof (induction basePath name ext usedNames counter rule: makeUnique_loop.induct)
  case (1 basePath name ext usedNames counter)
  show ?case
  proof (cases "has usedNames (candidateName basePath name ext counter)")
    case True
    with 1 show ?thesis
      by (subst makeUnique_loop.simps) simp
  next
    case False
    then show ?thesis
      by (subst makeUnique_loop.simps) (simp add: has_def)
  qed
qed

lemma makeUnique_fresh: "makeUnique fileName usedNames \<notin> set usedNames"
  by (simp add: makeUnique_def Let_def makeUnique_loop_fresh)

lemma getUniqueFileName_fresh:
  "fst (getUniqueFileName title l i usedNames d) \<notin> set usedNames"
  by (simp add: getUniqueFileName_def Let_def has_def makeUnique_fresh split: prod.splits)

lemma getUniqueFileName_set:
  "set (snd (getUniqueFileName title l i usedNames d)) =
     insert (fst (getUniqueFileName title l i usedNames d)) (set usedNames)"
  by (auto simp: getUniqueFileName_def Let_def add_def split: prod.splits)

lemma assignAll_set:
  "set (snd (assignAll arts usedNames d)) = set usedNames \<union> set (fst (assignAll arts usedNames d))"
proof (induction arts arbitrary: usedNames)
  case Nil
  show ?case by simp
next
  case (Cons a arts)
  obtain p u where g: "getUniqueFileName (art_title a) (art_language a) (art_index a) usedNames d = (p, u)"
    by (cases "getUniqueFileName (art_title a) (art_language a) (art_index a) usedNames d")
  have u: "set u = insert p (set usedNames)"
    using getUniqueFileName_set [of "art_title a" "art_language a" "art_index a" usedNames d] g by simp
  show ?case
    using Cons.IH [of u] g u by (auto split: prod.splits)
qed

lemma assignAll_fresh:
  "set (fst (assignAll arts usedNames d)) \<inter> set usedNames = {}"
proof (induction arts arbitrary: usedNames)
  case Nil
  show ?case by simp
next
  case (Cons a arts)
  obtain p u where g: "getUniqueFileName (art_title a) (art_language a) (art_index a) usedNames d = (p, u)"
    by (cases "getUniqueFileName (art_title a) (art_language a) (art_index a) usedNames d")
  have u: "set u = insert p (set usedNames)"
    using getUniqueFileName_set [of "art_title a" "art_language a" "art_index a" usedNames d] g by simp
  have p: "p \<notin> set usedNames"
    using getUniqueFileName_fresh [of "art_title a" "art_language a" "art_index a" usedNames d] g by simp
  show ?case
    using Cons.IH [of u] g u p by (auto split: prod.splits)
qed

lemma assignAll_distinct: "distinct (fst (assignAll arts usedNames d))"
proof (induction arts arbitrary: usedNames)
  case Nil
  show ?case by simp
next
  case (Cons a arts)
  obtain p u where g: "getUniqueFileName (art_title a) (art_language a) (art_index a) usedNames d = (p, u)"
    by (cases "getUniqueFileName (art_title a) (art_language a) (art_index a) usedNames d")
  have u: "set u = insert p (set usedNames)"
    using getUniqueFileName_set [of "art_title a" "art_language a" "art_index a" usedNames d] g by simp
  have "p \<notin> set (fst (assignAll arts u d))"
    using assignAll_fresh [of arts u d] u by auto
  then show ?case
    using Cons.IH [of u] g by (auto split: prod.splits)
qed

text \<open>
  C1. In one run sharing a single allocation set, whatever the set holds at the start,
  the paths returned by \<open>getUniqueFileName\<close> are pairwise distinct (and none of them was
  allocated before the run), and the path a call returns is in the allocation set right
  after that call.
\<close>

theorem getUniqueFileName_unique:
  "distinct (fst (assignAll arts usedNames d)) \<and>
   set (fst (assignAll arts usedNames d)) \<inter> set usedNames = {} \<and>
   has (snd (getUniqueFileName title l i usedNames d))
       (fst (getUniqueFileName title l i usedNames d))"
  by (simp add: assignAll_distinct assignAll_fresh has_def getUniqueFileName_set)

theorem getUniqueFileName_unique_witness:
  "fst (assignAll
         [\<lparr>art_title = ''a'', art_language = Str ''css'', art_index = 0\<rparr>,
          \<lparr>art_title = ''a'', art_language = Str ''css'', art_index = 0\<rparr>,
          \<lparr>art_title = ''a'', art_language = Str ''css'', art_index = 0\<rparr>] [''1_a_1.css''] False)
     = [''1_a.css'', ''1_a_2.css'', ''1_a_3.css''] \<and>
   distinct (fst (assignAll
         [\<lparr>art_title = ''a'', art_language = Str ''css'', art_index = 0\<rparr>,
          \<lparr>art_title = ''a'', art_language = Str ''css'', art_index = 0\<rparr>,
          \<lparr>art_title = ''a'', art_language = Str ''css'', art_index = 0\<rparr>] [''1_a_1.css''] False)) \<and>
   has (snd (getUniqueFileName ''a'' (Str ''css'') 0 [''1_a_1.css''] False))
       (fst (getUniqueFileName ''a'' (Str ''css'') 0 [''1_a_1.css''] False))"
proof -
  have "fst (assignAll
         [\<lparr>art_title = ''a'', art_language = Str ''css'', art_index = 0\<rparr>,
          \<lparr>art_title = ''a'', art_language = Str ''css'', art_index = 0\<rparr>,
          \<lparr>art_title = ''a'', art_language = Str ''css'', art_index = 0\<rparr>] [''1_a_1.css''] False)
     = [''1_a.css'', ''1_a_2.css'', ''1_a_3.css'']"
    by code_simp
  then show ?thesis
    using getUniqueFileName_unique
      [of "[\<lparr>art_title = ''a'', art_language = Str ''css'', art_index = 0\<rparr>,
            \<lparr>art_title = ''a'', art_language = Str ''css'', art_index = 0\<rparr>,
            \<lparr>art_title = ''a'', art_language = Str ''css'', art_index = 0\<rparr>]"
          "[''1_a_1.css'']" False "''a''" "Str ''css''" 0]
    by blast
qed

section \<open>Determinism\<close>

text \<open>
  A HOL function is deterministic by construction; what is proved here is that the result
  depends on the contents of \<open>usedNames\<close> only, not on the order in which its elements
  were inserted.
\<close>

lemma makeUnique_loop_cong:
  "set u1 = set u2 \<Longrightarrow>
   makeUnique_loop basePath name ext u1 counter = makeUnique_loop basePath name ext u2 counter"
proof (induction basePath name ext u1 counter rule: makeUnique_loop.induct)
  case (1 basePath name ext u1 counter)
  show ?case
  proof (cases "has u1 (candidateName basePath name ext counter)")
    case True
    then have h2: "has u2 (candidateName basePath name ext counter)"
      using "1.prems" by (simp add: has_def)
    have "makeUnique_loop basePath name ext u1 counter =
          makeUnique_loop basePath name ext u1 (counter + 1)"
      using True by (subst makeUnique_loop.simps) simp
    also have "\<dots> = makeUnique_loop basePath name ext u2 (counter + 1)"
      using "1.IH" True "1.prems" by simp
    also have "\<dots> = makeUnique_loop basePath name ext u2 counter"
      using h2 by (subst (2) makeUnique_loop.simps) simp
    finally show ?thesis .
  next
    case False
    then have h2: "\<not> has u2 (candidateName basePath name ext counter)"
      using "1.prems" by (simp add: has_def)
    have "makeUnique_loop basePath name ext u1 counter = candidateName basePath name ext counter"
      using False by (subst makeUnique_loop.simps) simp
    moreover have "makeUnique_loop basePath name ext u2 counter = candidateName basePath name ext counter"
      using h2 by (subst makeUnique_loop.simps) simp
    ultimately show ?thesis by simp
  qed
qed

lemma makeUnique_cong: "set u1 = set u2 \<Longrightarrow> makeUnique fileName u1 = makeUnique fileName u2"
  by (simp add: makeUnique_def Let_def makeUnique_loop_cong [of u1 u2])

lemma getUniqueFileName_cong:
  "set u1 = set u2 \<Longrightarrow>
   fst (getUniqueFileName title l i u1 d) = fst (getUniqueFileName title l i u2 d)"
  by (simp add: getUniqueFileName_def Let_def has_def makeUnique_cong [of u1 u2] case_prod_unfold)

lemma assignAll_cong:
  "set u1 = set u2 \<Longrightarrow> fst (assignAll arts u1 d) = fst (assignAll arts u2 d)"
proof (induction arts arbitrary: u1 u2)
  case Nil
  show ?case by simp
next
  case (Cons a arts)
  obtain p1 v1 where g1: "getUniqueFileName (art_title a) (art_language a) (art_index a) u1 d = (p1, v1)"
    by (cases "getUniqueFileName (art_title a) (art_language a) (art_index a) u1 d")
  obtain p2 v2 where g2: "getUniqueFileName (art_title a) (art_language a) (art_index a) u2 d = (p2, v2)"
    by (cases "getUniqueFileName (art_title a) (art_language a) (art_index a) u2 d")
  have p: "p1 = p2"
    using getUniqueFileName_cong [OF Cons.prems, of "art_title a" "art_language a" "art_index a" d] g1 g2
    by simp
  have "set v1 = set v2"
    using getUniqueFileName_set [of "art_title a" "art_language a" "art_index a" u1 d]
      getUniqueFileName_set [of "art_title a" "art_language a" "art_index a" u2 d] g1 g2 p Cons.prems
    by simp
  then have "fst (assignAll arts v1 d) = fst (assignAll arts v2 d)"
    by (rule Cons.IH)
  then show ?case
    using g1 g2 p by (simp add: case_prod_unfold Let_def)
qed

text \<open>
  C5. Two calls with the same title, language, index and layout flag, on allocation sets
  with the same contents, return the same path and leave allocation sets with the same
  contents; two runs over the same artifact sequence with the same flag, from allocation
  sets with the same contents (in particular two fresh empty ones), produce the same
  sequence of paths.
\<close>

theorem getUniqueFileName_deterministic:
  assumes "set u1 = set u2"
  shows "fst (getUniqueFileName title l i u1 d) = fst (getUniqueFileName title l i u2 d) \<and>
         set (snd (getUniqueFileName title l i u1 d)) = set (snd (getUniqueFileName title l i u2 d)) \<and>
         fst (assignAll arts u1 d) = fst (assignAll arts u2 d)"
  using assms getUniqueFileName_cong [OF assms, of title l i d] assignAll_cong [OF assms, of arts d]
  by (simp add: getUniqueFileName_set)

theorem getUniqueFileName_deterministic_witness:
  "set [''1_a.css'', ''x''] = set [''x'', ''1_a.css'', ''x''] \<and>
   fst (getUniqueFileName ''a'' (Str ''css'') 0 [''1_a.css'', ''x''] False) =
   fst (getUniqueFileName ''a'' (Str ''css'') 0 [''x'', ''1_a.css'', ''x''] False)"
proof -
  have h: "set [''1_a.css'', ''x''] = set [''x'', ''1_a.css'', ''x'']"
    by auto
  from getUniqueFileName_deterministic [OF h, of "''a''" "Str ''css''" 0 False "[]"] h
  show ?thesis by blast
qed

section \<open>Collision resolution keeps the directory segments\<close>

lemma lastIndexOf_ge: "- 1 \<le> lastIndexOf c s"
  by (induction s) (auto simp: Let_def)

lemma lastIndexOf_absent: "(lastIndexOf c s = - 1) = (c \<notin> set s)"
proof (induction s)
  case Nil
  show ?case by simp
next
  case (Cons x s)
  have "- 1 \<le> lastIndexOf c s" by (rule lastIndexOf_ge)
  with Cons show ?case by (auto simp: Let_def)
qed

lemma lastIndexOf_split:
  "lastIndexOf c s \<noteq> - 1 \<Longrightarrow>
   \<exists>pre post. s = pre @ c # post \<and> c \<notin> set post \<and> lastIndexOf c s = int (length pre)"
proof (induction s)
  case Nil
  then show ?case by simp
next
  case (Cons x s)
  show ?case
  proof (cases "lastIndexOf c s = - 1")
    case True
    with Cons.prems have "x = c" by (simp add: Let_def split: if_splits)
    moreover from True have "c \<notin> set s" by (simp add: lastIndexOf_absent)
    ultimately have "x # s = [] @ c # s \<and> c \<notin> set s \<and> lastIndexOf c (x # s) = int (length ([]::string))"
      using True by (simp add: Let_def)
    then show ?thesis by blast
  next
    case False
    with Cons.IH obtain pre post where
      "s = pre @ c # post" "c \<notin> set post" "lastIndexOf c s = int (length pre)"
      by blast
    with False have "x # s = (x # pre) @ c # post \<and> c \<notin> set post \<and>
        lastIndexOf c (x # s) = int (length (x # pre))"
      by (simp add: Let_def)
    then show ?thesis by blast
  qed
qed

lemma substring_prefix: "substring (pre @ post) 0 (int (length pre)) = pre"
  by (simp add: substring_def Let_def min_def max_def)

lemma substring_prefix1: "substring (pre @ c # post) 0 (int (length pre) + 1) = pre @ [c]"
  by (simp add: substring_def Let_def min_def max_def nat_add_distrib)

lemma substringFrom_suffix: "substringFrom (pre @ post) (int (length pre)) = post"
  by (simp add: substringFrom_def substring_def Let_def min_def max_def)

lemma substringFrom_suffix1: "substringFrom (pre @ c # post) (int (length pre) + 1) = post"
  by (simp add: substringFrom_def substring_def Let_def min_def max_def nat_add_distrib)

lemma splitOn_nonempty: "splitOn p s \<noteq> []"
  by (induction s) (auto split: list.splits)

lemma splitOn_no_sep: "(\<And>c. c \<in> set s \<Longrightarrow> \<not> p c) \<Longrightarrow> splitOn p s = [s]"
  by (induction s) auto

lemma splitOn_append_sep: "p c \<Longrightarrow> splitOn p (xs @ c # ys) = splitOn p xs @ splitOn p ys"
proof (induction xs)
  case Nil
  then show ?case by simp
next
  case (Cons x xs)
  obtain w ws where "splitOn p xs = w # ws"
    using splitOn_nonempty [of p xs] by (cases "splitOn p xs") auto
  with Cons show ?case by simp
qed

lemma set_substring: "set (substring s a b) \<subseteq> set s"
proof -
  have "set (take n (drop m s)) \<subseteq> set s" for n m
    using set_take_subset [of n "drop m s"] set_drop_subset [of m s] by blast
  then show ?thesis by (simp add: substring_def Let_def)
qed

lemma set_substringFrom: "set (substringFrom s a) \<subseteq> set s"
  by (simp add: substringFrom_def set_substring)

lemma digitChar_digit: "d < 10 \<Longrightarrow> digitChar d \<in> set ''0123456789''"
  unfolding digitChar_def by (rule nth_mem) simp

lemma showNat_digits: "set (showNat n) \<subseteq> set ''0123456789''"
proof (induction n rule: showNat.induct)
  case (1 n)
  show ?case
  proof (cases "n < 10")
    case True
    then show ?thesis
      using digitChar_digit [of n] by (subst showNat.simps) simp
  next
    case False
    have "n mod 10 < 10" by simp
    then have "digitChar (n mod 10) \<in> set ''0123456789''"
      by (rule digitChar_digit)
    with False 1 show ?thesis
      by (subst showNat.simps) simp
  qed
qed

lemma makeUnique_loop_shape:
  "\<exists>k. makeUnique_loop basePath name ext usedNames counter = candidateName basePath name ext k"
proof (induction basePath name ext usedNames counter rule: makeUnique_loop.induct)
  case (1 basePath name ext usedNames counter)
  show ?case
  proof (cases "has usedNames (candidateName basePath name ext counter)")
    case True
    with 1 show ?thesis
      by (subst makeUnique_loop.simps) simp
  next
    case False
    then have "makeUnique_loop basePath name ext usedNames counter =
        candidateName basePath name ext counter"
      by (subst makeUnique_loop.simps) simp
    then show ?thesis by blast
  qed
qed

lemma makeUnique_decompose:
  "\<exists>pre leaf0 leaf.
     fileName = pre @ leaf0 \<and> makeUnique fileName usedNames = pre @ leaf \<and>
     (pre = [] \<or> last pre = CHR ''/'') \<and> CHR ''/'' \<notin> set leaf0 \<and> CHR ''/'' \<notin> set leaf \<and>
     CHR ''_'' \<in> set leaf \<and> set leaf \<subseteq> set leaf0 \<union> set ''_0123456789''"
proof -
  define i where "i = lastIndexOf CHR ''/'' fileName"
  define basePath where "basePath = (if i \<noteq> - 1 then substring fileName 0 (i + 1) else [])"
  define baseFilename where
    "baseFilename = (if i \<noteq> - 1 then substringFrom fileName (i + 1) else fileName)"
  define j where "j = lastIndexOf CHR ''.'' baseFilename"
  define name where "name = (if j \<noteq> - 1 then substring baseFilename 0 j else baseFilename)"
  define ext where "ext = (if j \<noteq> - 1 then substringFrom baseFilename j else [])"
  have "makeUnique fileName usedNames = makeUnique_loop basePath name ext usedNames 1"
    by (simp add: makeUnique_def Let_def i_def basePath_def baseFilename_def j_def name_def ext_def)
  then obtain k where k: "makeUnique fileName usedNames = basePath @ name @ ''_'' @ showNat k @ ext"
    using makeUnique_loop_shape [of basePath name ext usedNames 1]
    by (auto simp: candidateName_def)
  define leaf where "leaf = name @ ''_'' @ showNat k @ ext"
  have parts: "fileName = basePath @ baseFilename \<and> (basePath = [] \<or> last basePath = CHR ''/'') \<and>
      CHR ''/'' \<notin> set baseFilename"
  proof (cases "i = - 1")
    case True
    then show ?thesis
      by (simp add: basePath_def baseFilename_def i_def lastIndexOf_absent)
  next
    case False
    then obtain pre post where "fileName = pre @ CHR ''/'' # post" "CHR ''/'' \<notin> set post"
        "i = int (length pre)"
      using lastIndexOf_split [of "CHR ''/''" fileName] by (auto simp: i_def)
    with False show ?thesis
      by (simp add: basePath_def baseFilename_def substring_prefix1 substringFrom_suffix1)
  qed
  have ne: "set name \<subseteq> set baseFilename" "set ext \<subseteq> set baseFilename"
    by (auto simp: name_def ext_def dest: subsetD [OF set_substring] subsetD [OF set_substringFrom])
  define D where "D = set ''_0123456789''"
  have d1: "set (showNat k) \<subseteq> D"
    using showNat_digits [of k] set_subset_Cons [of "''0123456789''" "CHR ''_''"]
    unfolding D_def by (rule subset_trans)
  have d2: "CHR ''_'' \<in> D" and d3: "CHR ''/'' \<notin> D"
    by (simp_all add: D_def)
  have charsD: "set leaf \<subseteq> set baseFilename \<union> D"
    using ne d1 d2 by (auto simp: leaf_def)
  then have chars: "set leaf \<subseteq> set baseFilename \<union> set ''_0123456789''"
    by (simp only: D_def)
  have p1: "fileName = basePath @ baseFilename"
    and p2: "basePath = [] \<or> last basePath = CHR ''/''"
    and p3: "CHR ''/'' \<notin> set baseFilename"
    using parts by blast+
  have noslash: "CHR ''/'' \<notin> set leaf"
    using charsD p3 d3 by blast
  have underscore: "CHR ''_'' \<in> set leaf"
    by (simp add: leaf_def)
  have m: "makeUnique fileName usedNames = basePath @ leaf"
    using k by (simp add: leaf_def)
  show ?thesis
  proof (intro exI conjI)
    show "fileName = basePath @ baseFilename" by (rule p1)
    show "makeUnique fileName usedNames = basePath @ leaf" by (rule m)
    show "basePath = [] \<or> last basePath = CHR ''/''" by (rule p2)
    show "CHR ''/'' \<notin> set baseFilename" by (rule p3)
    show "CHR ''/'' \<notin> set leaf" by (rule noslash)
    show "CHR ''_'' \<in> set leaf" by (rule underscore)
    show "set leaf \<subseteq> set baseFilename \<union> set ''_0123456789''" by (rule chars)
  qed
qed

lemma segments_leaf: "CHR ''/'' \<notin> set leaf \<Longrightarrow> segments leaf = [leaf]"
  unfolding segments_def by (rule splitOn_no_sep) (auto simp: isSlash_def)

lemma segments_append_leaf:
  assumes "pre = [] \<or> last pre = CHR ''/''" and "CHR ''/'' \<notin> set leaf"
  shows "segments (pre @ leaf) = (if pre = [] then [] else segments (butlast pre)) @ [leaf]"
proof (cases "pre = []")
  case True
  with assms show ?thesis by (simp add: segments_leaf)
next
  case False
  with assms obtain q where q: "pre = q @ [CHR ''/'']"
    by (metis append_butlast_last_id)
  have "segments (q @ CHR ''/'' # leaf) = segments q @ segments leaf"
    unfolding segments_def by (rule splitOn_append_sep) (simp add: isSlash_def)
  then show ?thesis
    using assms by (simp add: q segments_leaf)
qed

lemma makeUnique_segments:
  "\<exists>leaf. segments (makeUnique fileName usedNames) = directorySegments fileName @ [leaf] \<and>
     CHR ''_'' \<in> set leaf"
proof -
  obtain pre leaf0 leaf where d: "fileName = pre @ leaf0" "makeUnique fileName usedNames = pre @ leaf"
      "pre = [] \<or> last pre = CHR ''/''" "CHR ''/'' \<notin> set leaf0" "CHR ''/'' \<notin> set leaf"
      "CHR ''_'' \<in> set leaf"
    using makeUnique_decompose [of fileName usedNames] by blast
  have "directorySegments fileName = (if pre = [] then [] else segments (butlast pre))"
    unfolding directorySegments_def d(1) using segments_append_leaf [OF d(3) d(4)] by simp
  moreover have "segments (makeUnique fileName usedNames) =
      (if pre = [] then [] else segments (butlast pre)) @ [leaf]"
    unfolding d(2) using d(3) d(5) by (rule segments_append_leaf)
  ultimately show ?thesis
    using d(6) by auto
qed

lemma makeUnique_directorySegments:
  "directorySegments (makeUnique fileName usedNames) = directorySegments fileName"
  using makeUnique_segments [of fileName usedNames] by (auto simp: directorySegments_def)

lemma makeUnique_hd:
  assumes "hd (makeUnique fileName usedNames) = CHR ''/''"
  shows "fileName \<noteq> [] \<and> hd fileName = CHR ''/''"
proof -
  obtain pre leaf0 leaf where d: "fileName = pre @ leaf0" "makeUnique fileName usedNames = pre @ leaf"
      "pre = [] \<or> last pre = CHR ''/''" "CHR ''/'' \<notin> set leaf0" "CHR ''/'' \<notin> set leaf"
      "CHR ''_'' \<in> set leaf"
    using makeUnique_decompose [of fileName usedNames] by blast
  show ?thesis
  proof (cases "pre = []")
    case True
    with d have "leaf \<noteq> []" and "hd leaf = CHR ''/''"
      using assms by auto
    then have "CHR ''/'' \<in> set leaf"
      by (metis hd_in_set)
    with d show ?thesis by simp
  next
    case False
    with d assms show ?thesis by simp
  qed
qed

text \<open>
  C8. Collision resolution changes the leaf only: the directory segments of the path
  \<open>makeUnique\<close> returns are those of the candidate, unchanged and in the same order, and
  so are those of the path \<open>getUniqueFileName\<close> returns, compared with the candidate it
  composed.
\<close>

theorem makeUnique_keeps_directories:
  "directorySegments (makeUnique fileName usedNames) = directorySegments fileName \<and>
   directorySegments (fst (getUniqueFileName title l i usedNames d)) =
     directorySegments
       (constructFilePath (fst (sanitizePathComponents title)) (snd (sanitizePathComponents title))
          (getFileExtension l) (Some i) d)"
  by (simp add: makeUnique_directorySegments getUniqueFileName_def Let_def case_prod_unfold)

theorem makeUnique_keeps_directories_witness:
  "makeUnique ''src/utils/helper.js'' [''src/utils/helper.js''] = ''src/utils/helper_1.js'' \<and>
   directorySegments ''src/utils/helper_1.js'' = [''src'', ''utils''] \<and>
   directorySegments (makeUnique ''src/utils/helper.js'' [''src/utils/helper.js'']) =
     directorySegments ''src/utils/helper.js''"
proof -
  have "makeUnique ''src/utils/helper.js'' [''src/utils/helper.js''] = ''src/utils/helper_1.js''"
    by code_simp
  moreover have "directorySegments ''src/utils/helper_1.js'' = [''src'', ''utils'']"
    by code_simp
  ultimately show ?thesis
    using makeUnique_keeps_directories [of "''src/utils/helper.js''" "[''src/utils/helper.js'']"]
    by simp
qed

section \<open>Extension resolution\<close>

lemma languageToExt_values:
  "e \<in> snd ` set languageToExt \<Longrightarrow> e \<noteq> [] \<and> hd e = CHR ''.''"
  by (auto simp: languageToExt_def)

lemma getFileExtension_dot: "getFileExtension l \<noteq> [] \<and> hd (getFileExtension l) = CHR ''.''"
proof (cases l)
  case (Str x)
  show ?thesis
  proof (cases "map_of languageToExt (toLowerCase x)")
    case None
    with Str show ?thesis by simp
  next
    case (Some e)
    then have "e \<in> snd ` set languageToExt"
      by (metis map_of_SomeD snd_conv image_eqI)
    with Some Str languageToExt_values [of e] show ?thesis by simp
  qed
qed simp_all

text \<open>
  C6. Extension resolution looks the tag up in the fixed table without regard to case
  (\<open>PYTHON\<close> gives \<open>.py\<close>, \<open>JAVASCRIPT\<close> gives \<open>.js\<close>, \<open>CsS\<close> gives \<open>.css\<close>; two tags that
  differ in case only resolve alike); an empty, \<open>null\<close>, \<open>undefined\<close> or unrecognized tag
  gives \<open>.txt\<close>; the function is total and its result is never empty and begins with a
  dot.
\<close>

theorem getFileExtension_total:
  "getFileExtension (Str ''PYTHON'') = ''.py'' \<and>
   getFileExtension (Str ''JAVASCRIPT'') = ''.js'' \<and>
   getFileExtension (Str ''CsS'') = ''.css'' \<and>
   getFileExtension (Str []) = ''.txt'' \<and>
   getFileExtension Null = ''.txt'' \<and>
   getFileExtension Undefined = ''.txt'' \<and>
   (map_of languageToExt (toLowerCase s) = None \<longrightarrow> getFileExtension (Str s) = ''.txt'') \<and>
   (toLowerCase s = toLowerCase t \<longrightarrow> getFileExtension (Str s) = getFileExtension (Str t)) \<and>
   getFileExtension l \<noteq> [] \<and> hd (getFileExtension l) = CHR ''.''"
proof -
  have "getFileExtension (Str ''PYTHON'') = ''.py''"
    by code_simp
  moreover have "getFileExtension (Str ''JAVASCRIPT'') = ''.js''"
    by code_simp
  moreover have "getFileExtension (Str ''CsS'') = ''.css''"
    by code_simp
  moreover have "getFileExtension (Str s) = getFileExtension (Str t)"
    if "toLowerCase s = toLowerCase t"
  proof -
    from that have "length s = length t"
      unfolding toLowerCase_def by (rule map_eq_imp_length_eq)
    then have "(s = []) = (t = [])" by auto
    with that show ?thesis by simp
  qed
  ultimately show ?thesis
    using getFileExtension_dot [of l] by simp
qed

theorem getFileExtension_total_witness:
  "map_of languageToExt (toLowerCase ''unknown'') = None \<and>
   getFileExtension (Str ''unknown'') = ''.txt'' \<and>
   toLowerCase ''Python'' = toLowerCase ''pYTHON'' \<and>
   getFileExtension (Str ''Python'') = getFileExtension (Str ''pYTHON'')"
proof -
  have h1: "map_of languageToExt (toLowerCase ''unknown'') = None"
    by code_simp
  have h2: "toLowerCase ''Python'' = toLowerCase ''pYTHON''"
    by code_simp
  from getFileExtension_total [of "''unknown''" "''unknown''" Null] h1
  have "getFileExtension (Str ''unknown'') = ''.txt''"
    by blast
  moreover from getFileExtension_total [of "''Python''" "''pYTHON''" Null] h2
  have "getFileExtension (Str ''Python'') = getFileExtension (Str ''pYTHON'')"
    by blast
  ultimately show ?thesis
    using h1 h2 by blast
qed

section \<open>Separators and traversal segments in the returned path\<close>

lemma join_chars: "c \<in> set (join sep xs) \<Longrightarrow> c \<in> set sep \<or> (\<exists>x \<in> set xs. c \<in> set x)"
  by (induction sep xs rule: join.induct) auto

lemma marker_safe: "c \<in> set ''_0123456789'' \<Longrightarrow> isSafeChar c"
proof -
  have "list_all isSafeChar ''_0123456789''"
    by code_simp
  then show "c \<in> set ''_0123456789'' \<Longrightarrow> isSafeChar c"
    unfolding list_all_iff by (rule bspec)
qed

lemma showNat_safe: "c \<in> set (showNat n) \<Longrightarrow> isSafeChar c"
  using showNat_digits [of n] marker_safe [of c] set_subset_Cons [of "''0123456789''" "CHR ''_''"]
  by blast

lemma languageToExt_safe: "e \<in> snd ` set languageToExt \<Longrightarrow> c \<in> set e \<Longrightarrow> isSafeChar c"
proof -
  have "list_all (list_all isSafeChar) (map snd languageToExt)"
    by code_simp
  then show "e \<in> snd ` set languageToExt \<Longrightarrow> c \<in> set e \<Longrightarrow> isSafeChar c"
    unfolding list_all_iff by auto
qed

lemma txt_safe: "c \<in> set ''.txt'' \<Longrightarrow> isSafeChar c"
proof -
  have "list_all isSafeChar ''.txt''"
    by code_simp
  then show "c \<in> set ''.txt'' \<Longrightarrow> isSafeChar c"
    unfolding list_all_iff by (rule bspec)
qed

lemma getFileExtension_safe: "c \<in> set (getFileExtension l) \<Longrightarrow> isSafeChar c"
proof (cases l)
  case Null
  assume "c \<in> set (getFileExtension l)"
  with Null show ?thesis by (simp only: getFileExtension.simps txt_safe)
next
  case Undefined
  assume "c \<in> set (getFileExtension l)"
  with Undefined show ?thesis by (simp only: getFileExtension.simps txt_safe)
next
  case (Str x)
  assume c: "c \<in> set (getFileExtension l)"
  show ?thesis
  proof (cases "x = [] \<or> map_of languageToExt (toLowerCase x) = None")
    case True
    with Str have "getFileExtension l = ''.txt''" by (cases "x = []") simp_all
    with c have "c \<in> set ''.txt''" by simp
    then show ?thesis by (rule txt_safe)
  next
    case False
    then obtain e where e: "map_of languageToExt (toLowerCase x) = Some e" by auto
    then have "e \<in> snd ` set languageToExt"
      by (metis map_of_SomeD snd_conv image_eqI)
    moreover from e False Str c have "c \<in> set e" by simp
    ultimately show ?thesis by (rule languageToExt_safe)
  qed
qed

lemma sanitizePathComponents_safe:
  "c \<in> set (snd (sanitizePathComponents title)) \<Longrightarrow> isSafeChar c"
  "c \<in> set (fst (sanitizePathComponents title)) \<Longrightarrow> isSafeChar c \<or> c = CHR ''/''"
  by (auto simp: sanitizePathComponents_def Let_def case_prod_unfold
      dest!: join_chars sanitizeComponent_safe)

lemma NaN_safe: "c \<in> set ''NaN'' \<Longrightarrow> isSafeChar c"
proof -
  have "list_all isSafeChar ''NaN''"
    by code_simp
  then show "c \<in> set ''NaN'' \<Longrightarrow> isSafeChar c"
    unfolding list_all_iff by (rule bspec)
qed

lemma indexPlusOne_safe: "c \<in> set (indexPlusOne i) \<Longrightarrow> isSafeChar c"
  by (cases i) (simp_all add: NaN_safe showNat_safe)

lemma constructFilePath_flat_safe:
  assumes "\<And>c. c \<in> set filename \<Longrightarrow> isSafeChar c" and "\<And>c. c \<in> set extension \<Longrightarrow> isSafeChar c"
    and "c \<in> set (constructFilePath path filename extension i False)"
  shows "isSafeChar c"
  using assms indexPlusOne_safe [of c i]
  by (auto simp: constructFilePath_def isSafeChar_def)

lemma constructFilePath_chars:
  assumes "\<And>c. c \<in> set path \<Longrightarrow> isSafeChar c \<or> c = CHR ''/''"
    and "\<And>c. c \<in> set filename \<Longrightarrow> isSafeChar c" and "\<And>c. c \<in> set extension \<Longrightarrow> isSafeChar c"
    and "c \<in> set (constructFilePath path filename extension i d)"
  shows "isSafeChar c \<or> c = CHR ''/''"
  using assms indexPlusOne_safe [of c i]
  by (auto simp: constructFilePath_def isSafeChar_def split: if_splits)


lemma makeUnique_chars:
  assumes "c \<in> set (makeUnique fileName usedNames)"
  shows "c \<in> set fileName \<or> isSafeChar c"
proof -
  obtain pre leaf0 leaf where d: "fileName = pre @ leaf0" "makeUnique fileName usedNames = pre @ leaf"
      "set leaf \<subseteq> set leaf0 \<union> set ''_0123456789''"
    using makeUnique_decompose [of fileName usedNames] by blast
  from assms d(2) have "c \<in> set pre \<or> c \<in> set leaf"
    by simp
  then have "c \<in> set pre \<or> c \<in> set leaf0 \<or> c \<in> set ''_0123456789''"
    using d(3) by blast
  then show ?thesis
    using marker_safe [of c] d(1) by auto
qed

lemma makeUnique_underscore: "CHR ''_'' \<in> set (makeUnique fileName usedNames)"
proof -
  obtain pre leaf where "makeUnique fileName usedNames = pre @ leaf" "CHR ''_'' \<in> set leaf"
    using makeUnique_decompose [of fileName usedNames] by blast
  then show ?thesis by simp
qed

lemma getUniqueFileName_chars:
  assumes "c \<in> set (fst (getUniqueFileName title l i usedNames d))"
  shows "isSafeChar c \<or> c = CHR ''/''"
proof -
  define fileName where "fileName = constructFilePath (fst (sanitizePathComponents title))
      (snd (sanitizePathComponents title)) (getFileExtension l) (Some i) d"
  have f: "isSafeChar c \<or> c = CHR ''/''" if "c \<in> set fileName" for c
    using that unfolding fileName_def
    by (rule constructFilePath_chars [rotated 3])
      (auto dest: sanitizePathComponents_safe getFileExtension_safe)
  from assms have "c \<in> set fileName \<or> c \<in> set (makeUnique fileName usedNames)"
    by (auto simp: getUniqueFileName_def Let_def case_prod_unfold fileName_def split: if_splits)
  then show ?thesis
    using f makeUnique_chars [of c fileName usedNames] by blast
qed

lemma getUniqueFileName_flat_chars:
  assumes "c \<in> set (fst (getUniqueFileName title l i usedNames False))"
  shows "isSafeChar c"
proof -
  define fileName where "fileName = constructFilePath (fst (sanitizePathComponents title))
      (snd (sanitizePathComponents title)) (getFileExtension l) (Some i) False"
  have f: "isSafeChar c" if "c \<in> set fileName" for c
    using that unfolding fileName_def
    by (rule constructFilePath_flat_safe [rotated 2])
      (auto dest: sanitizePathComponents_safe getFileExtension_safe)
  from assms have "c \<in> set fileName \<or> c \<in> set (makeUnique fileName usedNames)"
    by (auto simp: getUniqueFileName_def Let_def case_prod_unfold fileName_def split: if_splits)
  then show ?thesis
    using f makeUnique_chars [of c fileName usedNames] by blast
qed

lemma getUniqueFileName_flat_underscore:
  "CHR ''_'' \<in> set (fst (getUniqueFileName title l i usedNames False))"
  by (simp add: getUniqueFileName_def Let_def case_prod_unfold makeUnique_underscore
      constructFilePath_def)

lemma notsafe: "\<not> isSafeChar CHR ''/''" "\<not> isSafeChar (CHR 0x5C)"
  by (simp_all add: isSafeChar_def isWordChar_def)

lemma pop_nonempty: "xs \<noteq> [] \<Longrightarrow> pop xs = (Some (last xs), butlast xs)"
  by (cases xs) simp_all

lemma sanitizePathComponents_eq:
  "sanitizePathComponents title =
     (join ''/'' (map sanitizeComponent (butlast (splitOn isPathSep title))),
      sanitizeComponent (orElse (Some (last (splitOn isPathSep title))) ''untitled''))"
  by (simp add: sanitizePathComponents_def pop_nonempty splitOn_nonempty)

lemma sanitizeComponent_empty: "sanitizeComponent s = [] \<Longrightarrow> s = []"
  by (cases s) (simp_all split: if_splits)

lemma sanitizeComponent_dotdot:
  assumes "sanitizeComponent s = ''..''"
  shows "s = ''..''"
proof -
  have safe: "isSafeChar c" if "c \<in> set ''..''" for c
    using that by (auto simp: isSafeChar_def)
  from assms obtain c1 r1 where s: "s = c1 # r1"
    by (cases s) auto
  have c1: "isSafeChar c1"
  proof (rule ccontr)
    assume "\<not> isSafeChar c1"
    with assms s show False by simp
  qed
  with assms s have 1: "c1 = CHR ''.''" and r1: "sanitizeComponent r1 = ''.''"
    by simp_all
  from r1 obtain c2 r2 where r: "r1 = c2 # r2"
    by (cases r1) auto
  have c2: "isSafeChar c2"
  proof (rule ccontr)
    assume "\<not> isSafeChar c2"
    with r1 r show False by simp
  qed
  with r1 r have 2: "c2 = CHR ''.''" and "sanitizeComponent r2 = []"
    by simp_all
  then have "r2 = []"
    using sanitizeComponent_empty by blast
  with s r 1 2 show ?thesis by simp
qed

lemma segments_join:
  "xs \<noteq> [] \<Longrightarrow> (\<And>x. x \<in> set xs \<Longrightarrow> CHR ''/'' \<notin> set x) \<Longrightarrow> segments (join ''/'' xs) = xs"
proof (induction "''/''" xs rule: join.induct)
  case 1
  then show ?case by simp
next
  case (2 x)
  then show ?case by (simp add: segments_leaf)
next
  case (3 x y ys)
  have "segments (x @ CHR ''/'' # join ''/'' (y # ys)) = segments x @ segments (join ''/'' (y # ys))"
    unfolding segments_def by (rule splitOn_append_sep) (simp add: isSlash_def)
  moreover have "segments x = [x]"
    using 3(3) [of x] by (simp add: segments_leaf)
  moreover have "segments (join ''/'' (y # ys)) = y # ys"
    using 3 by simp
  ultimately show ?case by simp
qed

lemma splitOn_hd_empty: "hd (splitOn p s) = [] \<Longrightarrow> s = [] \<or> p (hd s)"
  by (cases s) (auto split: if_splits list.splits)


lemma hd_join: "xs \<noteq> [] \<Longrightarrow> hd xs \<noteq> [] \<Longrightarrow> hd (join sep xs) = hd (hd xs)"
proof (induction sep xs rule: join.induct)
  case (1 sep)
  then show ?case by simp
next
  case (2 sep x)
  then show ?case by simp
next
  case (3 sep x y ys)
  then show ?case by simp
qed

lemma join_empty: "join sep xs \<noteq> [] \<Longrightarrow> xs \<noteq> []"
  by (cases xs) simp_all

lemma languageToExt_length: "e \<in> snd ` set languageToExt \<Longrightarrow> 2 \<le> length e"
  by (auto simp: languageToExt_def)

lemma getFileExtension_length: "2 \<le> length (getFileExtension l)"
proof (cases l)
  case (Str x)
  show ?thesis
  proof (cases "map_of languageToExt (toLowerCase x)")
    case None
    with Str show ?thesis by simp
  next
    case (Some e)
    then have "e \<in> snd ` set languageToExt"
      by (metis map_of_SomeD snd_conv image_eqI)
    then have "2 \<le> length e"
      by (rule languageToExt_length)
    with Some Str show ?thesis by simp
  qed
qed simp_all

lemma sanitizedFilename_nonempty: "snd (sanitizePathComponents title) \<noteq> []"
proof
  assume "snd (sanitizePathComponents title) = []"
  then have "sanitizeComponent (orElse (Some (last (splitOn isPathSep title))) ''untitled'') = []"
    by (simp add: sanitizePathComponents_eq)
  then have "orElse (Some (last (splitOn isPathSep title))) ''untitled'' = []"
    by (rule sanitizeComponent_empty)
  then show False
    by (simp split: if_splits)
qed

lemma candidate_directory_mode:
  assumes sdirs_def: "sdirs = map sanitizeComponent (butlast (splitOn isPathSep title))"
    and leaf0_def: "leaf0 = snd (sanitizePathComponents title) @ getFileExtension l"
    and fileName_def: "fileName = constructFilePath (fst (sanitizePathComponents title))
      (snd (sanitizePathComponents title)) (getFileExtension l) (Some i) True"
  shows "CHR ''/'' \<notin> set leaf0" and "3 \<le> length leaf0"
    and "segments fileName = (if join ''/'' sdirs \<noteq> [] then sdirs else []) @ [leaf0]"
    and "fileName = (if join ''/'' sdirs \<noteq> [] then join ''/'' sdirs @ ''/'' else []) @ leaf0"
proof -
  have sp: "fst (sanitizePathComponents title) = join ''/'' sdirs"
    by (simp add: sanitizePathComponents_eq sdirs_def)
  show l0: "CHR ''/'' \<notin> set leaf0"
    using sanitizePathComponents_safe(1) [of "CHR ''/''" title]
      getFileExtension_safe [of "CHR ''/''" l] notsafe(1)
    by (auto simp: leaf0_def)
  show "3 \<le> length leaf0"
    using getFileExtension_length [of l] sanitizedFilename_nonempty [of title]
    by (cases "snd (sanitizePathComponents title)") (simp_all add: leaf0_def)
  show f: "fileName = (if join ''/'' sdirs \<noteq> [] then join ''/'' sdirs @ ''/'' else []) @ leaf0"
    by (simp add: fileName_def constructFilePath_def sp leaf0_def)
  show "segments fileName = (if join ''/'' sdirs \<noteq> [] then sdirs else []) @ [leaf0]"
  proof (cases "join ''/'' sdirs = []")
    case True
    with f l0 show ?thesis by (simp add: segments_leaf)
  next
    case False
    then have ne: "sdirs \<noteq> []" by auto
    have "CHR ''/'' \<notin> set x" if "x \<in> set sdirs" for x
      using that sanitizeComponent_safe [of "CHR ''/''"] notsafe(1) by (auto simp: sdirs_def)
    with ne have "segments (join ''/'' sdirs) = sdirs"
      by (rule segments_join)
    moreover have "segments ((join ''/'' sdirs @ ''/'') @ leaf0) =
        (if join ''/'' sdirs @ ''/'' = [] then [] else segments (butlast (join ''/'' sdirs @ ''/'')))
          @ [leaf0]"
      using l0 by (intro segments_append_leaf) simp_all
    ultimately show ?thesis
      using False f by simp
  qed
qed

lemma getUniqueFileName_cases:
  "fst (getUniqueFileName title l i usedNames d) =
     constructFilePath (fst (sanitizePathComponents title)) (snd (sanitizePathComponents title))
       (getFileExtension l) (Some i) d \<or>
   fst (getUniqueFileName title l i usedNames d) =
     makeUnique (constructFilePath (fst (sanitizePathComponents title))
       (snd (sanitizePathComponents title)) (getFileExtension l) (Some i) d) usedNames"
  by (simp add: getUniqueFileName_def Let_def case_prod_unfold)

lemma getUniqueFileName_dotdot:
  assumes "''..'' \<in> set (segments (fst (getUniqueFileName title l i usedNames True)))"
  shows "''..'' \<in> set (butlast (splitOn isPathSep title))"
proof -
  define sdirs where "sdirs = map sanitizeComponent (butlast (splitOn isPathSep title))"
  define leaf0 where "leaf0 = snd (sanitizePathComponents title) @ getFileExtension l"
  define fileName where "fileName = constructFilePath (fst (sanitizePathComponents title))
      (snd (sanitizePathComponents title)) (getFileExtension l) (Some i) True"
  have len: "3 \<le> length leaf0"
    and seg: "segments fileName = (if join ''/'' sdirs \<noteq> [] then sdirs else []) @ [leaf0]"
    using candidate_directory_mode [OF sdirs_def leaf0_def fileName_def]
    by simp_all
  have l0: "leaf0 \<noteq> ''..''"
    using len by auto
  have cand: "''..'' \<in> set sdirs" if "''..'' \<in> set (segments fileName)"
    using that seg l0 by (auto split: if_splits)
  have "''..'' \<in> set (segments fileName)"
  proof -
    from getUniqueFileName_cases [of title l i usedNames True]
    consider "fst (getUniqueFileName title l i usedNames True) = fileName"
      | "fst (getUniqueFileName title l i usedNames True) = makeUnique fileName usedNames"
      unfolding fileName_def by blast
    then show ?thesis
    proof cases
      case 1
      with assms show ?thesis by simp
    next
      case 2
      obtain leaf where leaf: "segments (makeUnique fileName usedNames) =
          directorySegments fileName @ [leaf]" "CHR ''_'' \<in> set leaf"
        using makeUnique_segments [of fileName usedNames] by blast
      then have "leaf \<noteq> ''..''" by auto
      with assms 2 leaf(1) have "''..'' \<in> set (directorySegments fileName)"
        by auto
      then show ?thesis
        unfolding directorySegments_def by (rule in_set_butlastD)
    qed
  qed
  then have "''..'' \<in> set sdirs"
    by (rule cand)
  then obtain p where "p \<in> set (butlast (splitOn isPathSep title))" "sanitizeComponent p = ''..''"
    unfolding sdirs_def by auto
  then show ?thesis
    using sanitizeComponent_dotdot [of p] by simp
qed

lemma getUniqueFileName_leading_slash:
  assumes "hd (fst (getUniqueFileName title l i usedNames True)) = CHR ''/''"
  shows "title \<noteq> [] \<and> isPathSep (hd title)"
proof -
  define parts where "parts = butlast (splitOn isPathSep title)"
  define sdirs where "sdirs = map sanitizeComponent parts"
  define leaf0 where "leaf0 = snd (sanitizePathComponents title) @ getFileExtension l"
  define fileName where "fileName = constructFilePath (fst (sanitizePathComponents title))
      (snd (sanitizePathComponents title)) (getFileExtension l) (Some i) True"
  have l0: "CHR ''/'' \<notin> set leaf0" and len: "3 \<le> length leaf0"
    and f: "fileName = (if join ''/'' sdirs \<noteq> [] then join ''/'' sdirs @ ''/'' else []) @ leaf0"
    using candidate_directory_mode [OF sdirs_def [unfolded parts_def] leaf0_def fileName_def]
    by simp_all
  have ne: "leaf0 \<noteq> []"
    using len by auto
  have hf: "hd fileName = CHR ''/''"
  proof -
    from getUniqueFileName_cases [of title l i usedNames True]
    consider "fst (getUniqueFileName title l i usedNames True) = fileName"
      | "fst (getUniqueFileName title l i usedNames True) = makeUnique fileName usedNames"
      unfolding fileName_def by blast
    then show ?thesis
    proof cases
      case 1
      with assms show ?thesis by simp
    next
      case 2
      with assms show ?thesis
        using makeUnique_hd [of fileName usedNames] by simp
    qed
  qed
  have sp: "join ''/'' sdirs \<noteq> []"
  proof
    assume "join ''/'' sdirs = []"
    with f hf have "hd leaf0 = CHR ''/''" by simp
    with ne have "CHR ''/'' \<in> set leaf0" by (metis hd_in_set)
    with l0 show False by simp
  qed
  then have sd: "sdirs \<noteq> []" by auto
  from sp f hf have hsp: "hd (join ''/'' sdirs) = CHR ''/''"
    by simp
  have "hd sdirs = []"
  proof (rule ccontr)
    assume n: "hd sdirs \<noteq> []"
    with sd hsp have "hd (hd sdirs) = CHR ''/''"
      by (simp add: hd_join)
    with n have "CHR ''/'' \<in> set (hd sdirs)"
      by (metis hd_in_set)
    moreover have "hd sdirs \<in> set sdirs"
      using sd by simp
    ultimately show False
      using sanitizeComponent_safe [of "CHR ''/''"] notsafe(1) by (auto simp: sdirs_def)
  qed
  moreover from sd have pn: "parts \<noteq> []"
    by (simp add: sdirs_def)
  ultimately have "sanitizeComponent (hd parts) = []"
    by (simp add: sdirs_def hd_map)
  then have "hd parts = []"
    by (rule sanitizeComponent_empty)
  moreover have "hd parts = hd (splitOn isPathSep title)"
    using pn unfolding parts_def by (cases "splitOn isPathSep title") (auto split: if_splits)
  ultimately have "title = [] \<or> isPathSep (hd title)"
    using splitOn_hd_empty [of isPathSep title] by simp
  moreover have "title \<noteq> []"
    using pn by (auto simp: parts_def)
  ultimately show ?thesis by simp
qed

lemma getUniqueFileName_nonempty: "fst (getUniqueFileName title l i usedNames d) \<noteq> []"
proof -
  have "constructFilePath path (snd (sanitizePathComponents title)) (getFileExtension l) (Some i) d \<noteq> []"
    for path
    using sanitizedFilename_nonempty [of title] by (simp add: constructFilePath_def)
  moreover have "makeUnique fileName usedNames \<noteq> []" for fileName
    using makeUnique_underscore [of fileName usedNames] by auto
  ultimately show ?thesis
    using getUniqueFileName_cases [of title l i usedNames d] by metis
qed

text \<open>
  C4, as the code has it. The claim that no returned path begins with \<open>/\<close> or has a
  \<open>..\<close> segment fails in the directory layout: \<open>.\<close> is a safe character, so a title
  segment \<open>..\<close> is kept, and empty leading segments are joined with \<open>/\<close>.
\<close>

theorem getUniqueFileName_traversal_counterexample:
  "fst (getUniqueFileName ''../x'' (Str ''javascript'') 0 [] True) = ''../x.js'' \<and>
   segments ''../x.js'' = [''..'', ''x.js''] \<and>
   fst (getUniqueFileName ''//x'' (Str ''javascript'') 0 [] True) = ''//x.js''"
  by code_simp

text \<open>
  C4, amended. Every returned path is non-empty and free of backslashes. In the flat
  layout it has no \<open>/\<close> at all, so it is a single segment, does not begin with \<open>/\<close>, and
  has no \<open>..\<close> segment. In the directory layout it has no \<open>..\<close> segment unless a
  directory segment of the title (the title split on \<open>/\<close> and \<open>\\<close>, without its last
  part) is \<open>..\<close> itself, and it does not begin with \<open>/\<close> unless the title begins with a
  separator.
\<close>

theorem getUniqueFileName_path_safety:
  "fst (getUniqueFileName title l i usedNames d) \<noteq> [] \<and>
   CHR 0x5C \<notin> set (fst (getUniqueFileName title l i usedNames d)) \<and>
   CHR ''/'' \<notin> set (fst (getUniqueFileName title l i usedNames False)) \<and>
   ''..'' \<notin> set (segments (fst (getUniqueFileName title l i usedNames False))) \<and>
   (''..'' \<notin> set (butlast (splitOn isPathSep title)) \<longrightarrow>
      ''..'' \<notin> set (segments (fst (getUniqueFileName title l i usedNames True)))) \<and>
   (title = [] \<or> \<not> isPathSep (hd title) \<longrightarrow>
      hd (fst (getUniqueFileName title l i usedNames True)) \<noteq> CHR ''/'')"
proof -
  have 1: "CHR 0x5C \<notin> set (fst (getUniqueFileName title l i usedNames d))"
    using getUniqueFileName_chars [of "CHR 0x5C" title l i usedNames d] notsafe by auto
  have 2: "CHR ''/'' \<notin> set (fst (getUniqueFileName title l i usedNames False))"
    using getUniqueFileName_flat_chars [of "CHR ''/''" title l i usedNames] notsafe by auto
  have "fst (getUniqueFileName title l i usedNames False) \<noteq> ''..''"
    using getUniqueFileName_flat_underscore [of title l i usedNames] by auto
  with 2 have 3: "''..'' \<notin> set (segments (fst (getUniqueFileName title l i usedNames False)))"
    by (simp add: segments_leaf)
  have 4: "''..'' \<notin> set (butlast (splitOn isPathSep title)) \<longrightarrow>
      ''..'' \<notin> set (segments (fst (getUniqueFileName title l i usedNames True)))"
    using getUniqueFileName_dotdot [of title l i usedNames] by blast
  have 5: "title = [] \<or> \<not> isPathSep (hd title) \<longrightarrow>
      hd (fst (getUniqueFileName title l i usedNames True)) \<noteq> CHR ''/''"
    using getUniqueFileName_leading_slash [of title l i usedNames] by blast
  from getUniqueFileName_nonempty [of title l i usedNames d] 1 2 3 4 5 show ?thesis
    by blast
qed

theorem getUniqueFileName_path_safety_witness:
  "''..'' \<notin> set (butlast (splitOn isPathSep ''src/my file'')) \<and>
   ''..'' \<notin> set (segments (fst (getUniqueFileName ''src/my file'' (Str ''python'') 0 [] True))) \<and>
   \<not> isPathSep (hd ''src/my file'') \<and>
   hd (fst (getUniqueFileName ''src/my file'' (Str ''python'') 0 [] True)) \<noteq> CHR ''/''"
proof -
  have h1: "''..'' \<notin> set (butlast (splitOn isPathSep ''src/my file''))"
    by code_simp
  have h2: "\<not> isPathSep (hd ''src/my file'')"
    by code_simp
  from getUniqueFileName_path_safety [of "''src/my file''" "Str ''python''" 0 "[]" True] h1 h2
  show ?thesis by blast
qed

section \<open>Index prefix in the flat layout\<close>

lemma lastIndexOf_last: "c \<notin> set ys \<Longrightarrow> lastIndexOf c (xs @ c # ys) = int (length xs)"
proof (induction xs)
  case Nil
  then have "lastIndexOf c ys = - 1"
    by (simp add: lastIndexOf_absent)
  then show ?case by simp
next
  case (Cons x xs)
  then have "lastIndexOf c (xs @ c # ys) = int (length xs)"
    by simp
  then show ?case by (simp add: Let_def)
qed

lemma languageToExt_shape:
  "x \<in> snd ` set languageToExt \<Longrightarrow> x \<noteq> [] \<and> hd x = CHR ''.'' \<and> CHR ''.'' \<notin> set (tl x)"
proof -
  have "list_all (\<lambda>x. x \<noteq> [] \<and> hd x = CHR ''.'' \<and> CHR ''.'' \<notin> set (tl x))
          (map snd languageToExt)"
    by code_simp
  then show "x \<in> snd ` set languageToExt \<Longrightarrow> x \<noteq> [] \<and> hd x = CHR ''.'' \<and> CHR ''.'' \<notin> set (tl x)"
    unfolding list_all_iff by auto
qed

lemma getFileExtension_shape: "\<exists>e. getFileExtension l = CHR ''.'' # e \<and> CHR ''.'' \<notin> set e"
proof -
  have dflt: "''.txt'' = CHR ''.'' # ''txt'' \<and> CHR ''.'' \<notin> set ''txt''"
    by simp
  show ?thesis
  proof (cases l)
    case Null
    with dflt show ?thesis by simp
  next
    case Undefined
    with dflt show ?thesis by simp
  next
    case (Str x)
    show ?thesis
    proof (cases "x = [] \<or> map_of languageToExt (toLowerCase x) = None")
      case True
      with Str have "getFileExtension l = ''.txt''"
        by (cases "x = []") simp_all
      with dflt show ?thesis by simp
    next
      case False
      then obtain y where y: "map_of languageToExt (toLowerCase x) = Some y"
        by auto
      then have "y \<in> snd ` set languageToExt"
        by (metis map_of_SomeD snd_conv image_eqI)
      then have "y \<noteq> [] \<and> hd y = CHR ''.'' \<and> CHR ''.'' \<notin> set (tl y)"
        by (rule languageToExt_shape)
      then have "y = CHR ''.'' # tl y \<and> CHR ''.'' \<notin> set (tl y)"
        by (cases y) simp_all
      moreover from y False Str have "getFileExtension l = y"
        by simp
      ultimately show ?thesis by metis
    qed
  qed
qed

lemma makeUnique_flat_form:
  assumes "CHR ''/'' \<notin> set stem" and "CHR ''/'' \<notin> set e" and "CHR ''.'' \<notin> set e"
  shows "\<exists>k. makeUnique (stem @ CHR ''.'' # e) usedNames = stem @ ''_'' @ showNat k @ CHR ''.'' # e"
proof -
  define fileName where "fileName = stem @ CHR ''.'' # e"
  have i: "lastIndexOf CHR ''/'' fileName = - 1"
    using assms(1,2) by (simp add: lastIndexOf_absent fileName_def)
  have j: "lastIndexOf CHR ''.'' fileName = int (length stem)"
    unfolding fileName_def using assms(3) by (rule lastIndexOf_last)
  have name: "substring fileName 0 (int (length stem)) = stem"
    unfolding fileName_def by (rule substring_prefix)
  have ext: "substringFrom fileName (int (length stem)) = CHR ''.'' # e"
    unfolding fileName_def by (rule substringFrom_suffix)
  have "makeUnique fileName usedNames = makeUnique_loop [] stem (CHR ''.'' # e) usedNames 1"
    by (simp add: makeUnique_def Let_def i j name ext)
  then show ?thesis
    using makeUnique_loop_shape [of "[]" stem "CHR ''.'' # e" usedNames 1]
    by (auto simp: candidateName_def fileName_def)
qed

lemma getUniqueFileName_flat_form:
  "\<exists>marker. fst (getUniqueFileName title l i usedNames False) =
       showNat (i + 1) @ ''_'' @ snd (sanitizePathComponents title) @ marker @ getFileExtension l \<and>
     (marker = [] \<or> (\<exists>k. marker = ''_'' @ showNat k))"
proof -
  obtain e where e: "getFileExtension l = CHR ''.'' # e" "CHR ''.'' \<notin> set e"
    using getFileExtension_shape [of l] by blast
  define stem where "stem = showNat (i + 1) @ ''_'' @ snd (sanitizePathComponents title)"
  define fileName where "fileName = constructFilePath (fst (sanitizePathComponents title))
      (snd (sanitizePathComponents title)) (getFileExtension l) (Some i) False"
  have f: "fileName = stem @ CHR ''.'' # e"
    by (simp add: fileName_def constructFilePath_def stem_def e(1))
  have safe: "isSafeChar c" if "c \<in> set fileName" for c
    using that unfolding fileName_def
    by (rule constructFilePath_flat_safe [rotated 2])
      (auto dest: sanitizePathComponents_safe getFileExtension_safe)
  have "CHR ''/'' \<notin> set fileName"
    using safe notsafe(1) by blast
  then have s1: "CHR ''/'' \<notin> set stem" and s2: "CHR ''/'' \<notin> set e"
    by (simp_all add: f)
  from getUniqueFileName_cases [of title l i usedNames False]
  consider "fst (getUniqueFileName title l i usedNames False) = fileName"
    | "fst (getUniqueFileName title l i usedNames False) = makeUnique fileName usedNames"
    unfolding fileName_def by blast
  then show ?thesis
  proof cases
    case 1
    then have "fst (getUniqueFileName title l i usedNames False) =
        showNat (i + 1) @ ''_'' @ snd (sanitizePathComponents title) @ [] @ getFileExtension l"
      by (simp add: f stem_def e(1))
    then show ?thesis by blast
  next
    case 2
    obtain k where "makeUnique fileName usedNames = stem @ ''_'' @ showNat k @ CHR ''.'' # e"
      unfolding f using makeUnique_flat_form [OF s1 s2 e(2), of usedNames] by blast
    with 2 have "fst (getUniqueFileName title l i usedNames False) =
        showNat (i + 1) @ ''_'' @ snd (sanitizePathComponents title) @ (''_'' @ showNat k) @
          getFileExtension l"
      by (simp add: stem_def e(1))
    then show ?thesis by blast
  qed
qed

text \<open>
  C3, as the code has it. The claim that the numeric prefix and its underscore are left
  out when the index is \<open>undefined\<close> fails on the code: \<open>constructFilePath\<close> has one flat
  branch, which always prints \<open>messageIndex + 1\<close>, and \<open>undefined + 1\<close> prints as \<open>NaN\<close>.
\<close>

theorem constructFilePath_undefined_index_counterexample:
  "constructFilePath (fst (sanitizePathComponents ''test'')) (snd (sanitizePathComponents ''test''))
     ''.js'' None False = ''NaN_test.js'' \<and>
   constructFilePath (fst (sanitizePathComponents ''test'')) (snd (sanitizePathComponents ''test''))
     ''.js'' None False \<noteq> ''test.js''"
  by code_simp

text \<open>
  C3, amended. In the flat layout, for every index \<open>i\<close> from \<open>0\<close> up to \<open>2^53 - 1\<close> (the
  range in which \<open>i + 1\<close> is exact for a JavaScript number), \<open>constructFilePath\<close> gives
  the decimal numeral of \<open>i + 1\<close>, an underscore, the sanitized leaf name and the
  extension (index \<open>0\<close> gives the prefix \<open>1_\<close>), and every path \<open>getUniqueFileName\<close> returns
  is that prefix, the sanitized leaf, at most a collision marker, and the extension. The
  index is a required number: no branch leaves the prefix out and there is no suffix
  parameter. Composing \<open>test\<close> with \<open>.js\<close> and index \<open>5\<close> gives \<open>6_test.js\<close>.
\<close>

theorem flat_index_prefix:
  "(i < 2 ^ 53 \<longrightarrow>
      constructFilePath path filename extension (Some i) False =
        showNat (i + 1) @ ''_'' @ filename @ extension) \<and>
   (i < 2 ^ 53 \<longrightarrow>
      (\<exists>marker. fst (getUniqueFileName title l i usedNames False) =
           showNat (i + 1) @ ''_'' @ snd (sanitizePathComponents title) @ marker @
             getFileExtension l \<and>
         (marker = [] \<or> (\<exists>k. marker = ''_'' @ showNat k)))) \<and>
   constructFilePath path filename extension (Some 0) False = ''1_'' @ filename @ extension \<and>
   constructFilePath (fst (sanitizePathComponents ''test'')) (snd (sanitizePathComponents ''test''))
     ''.js'' (Some 5) False = ''6_test.js'' \<and>
   fst (getUniqueFileName ''test'' (Str ''javascript'') 5 [] False) = ''6_test.js''"
proof -
  have "showNat (Suc 0) = ''1''"
    by code_simp
  moreover have
    "constructFilePath (fst (sanitizePathComponents ''test'')) (snd (sanitizePathComponents ''test''))
       ''.js'' (Some 5) False = ''6_test.js''"
    by code_simp
  moreover have "fst (getUniqueFileName ''test'' (Str ''javascript'') 5 [] False) = ''6_test.js''"
    by code_simp
  ultimately show ?thesis
    using getUniqueFileName_flat_form [of title l i usedNames]
    by (simp add: constructFilePath_def)
qed

theorem flat_index_prefix_witness:
  "(41::nat) < 2 ^ 53 \<and>
   constructFilePath [] ''my_file'' ''.py'' (Some 41) False = ''42_my_file.py'' \<and>
   (\<exists>marker. ''42_my_file_1.py'' =
        showNat (41 + 1) @ ''_'' @ snd (sanitizePathComponents ''my file'') @ marker @
          getFileExtension (Str ''python'') \<and>
      (marker = [] \<or> (\<exists>k. marker = ''_'' @ showNat k)))"
proof -
  have h: "(41::nat) < 2 ^ 53"
    by simp
  have n: "showNat (41 + 1) = ''42''"
    by code_simp
  have v: "fst (getUniqueFileName ''my file'' (Str ''python'') 41 [''42_my_file.py''] False)
     = ''42_my_file_1.py''"
    by code_simp
  note t = flat_index_prefix [of 41 "[]" "''my_file''" "''.py''" "''my file''" "Str ''python''"
      "[''42_my_file.py'']"]
  from t h have "constructFilePath [] ''my_file'' ''.py'' (Some 41) False =
      showNat (41 + 1) @ ''_'' @ ''my_file'' @ ''.py''"
    by blast
  with n have c: "constructFilePath [] ''my_file'' ''.py'' (Some 41) False = ''42_my_file.py''"
    by simp
  from t h have "\<exists>marker. fst (getUniqueFileName ''my file'' (Str ''python'') 41 [''42_my_file.py''] False) =
        showNat (41 + 1) @ ''_'' @ snd (sanitizePathComponents ''my file'') @ marker @
          getFileExtension (Str ''python'') \<and>
      (marker = [] \<or> (\<exists>k. marker = ''_'' @ showNat k))"
    by blast
  then have "\<exists>marker. ''42_my_file_1.py'' =
        showNat (41 + 1) @ ''_'' @ snd (sanitizePathComponents ''my file'') @ marker @
          getFileExtension (Str ''python'') \<and>
      (marker = [] \<or> (\<exists>k. marker = ''_'' @ showNat k))"
    by (simp only: v)
  with h c show ?thesis
    by blast
qed

section \<open>The array-based resolver on the collision scenario\<close>

text \<open>
  C2. The claim: a colliding candidate gets \<open>_\<close> and a run of \<open>*\<close> immediately before
  its extension, so \<open>2_test-file.js\<close> becomes \<open>2_test-file_*.js\<close>. What
  \<open>makeUniqueWithArrays\<close> computes on that scenario: \<open>pipe\<close> reduces from the right, so
  the path is joined first, then the extension, then the marker, and \<open>prependPath\<close> is
  built with \<open>append\<close>, so the (empty) base path follows the name. The marker ends up
  after the extension. \<open>getUniqueFileName\<close> itself resolves the collision with the
  counter-based \<open>makeUnique\<close> and returns \<open>2_test-file_1.js\<close>.
\<close>

theorem makeUniqueWithArrays_collision:
  "makeUniqueWithArrays ''2_test-file.js'' [''2_test-file.js''] = ''2_test-file/.js_*'' \<and>
   makeUniqueWithArrays ''2_test-file.js'' [''2_test-file.js'', ''2_test-file_*.js'']
     = ''2_test-file/.js_*'' \<and>
   fst (getUniqueFileName ''test-file'' (Str ''javascript'') 1 [''2_test-file.js''] False)
     = ''2_test-file_1.js''"
proof -
  have "fst (getUniqueFileName ''test-file'' (Str ''javascript'') 1 [''2_test-file.js''] False)
     = ''2_test-file_1.js''"
    by code_simp
  moreover
  have "makeUniqueWithArrays ''2_test-file.js'' [''2_test-file.js''] = ''2_test-file/.js_*''"
    by code_simp
  moreover have "makeUniqueWithArrays ''2_test-file.js'' [''2_test-file.js'', ''2_test-file_*.js'']
     = ''2_test-file/.js_*''"
    by code_simp
  ultimately show ?thesis by simp
qed

section \<open>The empty title\<close>

text \<open>
  C7. The claim: an empty title is never replaced by a placeholder, so the artifact with
  empty title, language python and index 0 is named \<open>1_.py\<close> in the flat layout. What
  \<open>getUniqueFileName\<close> computes: \<open>sanitizePathComponents\<close> replaces the empty leaf by
  \<open>untitled\<close> before sanitizing it. The sanitizer alone does map the empty segment to the
  empty string, and the composer of the spec gives \<open>.txt\<close> for the empty title.
\<close>

theorem getUniqueFileName_empty_title:
  "sanitizeComponent [] = [] \<and>
   PathComposer_compose [] ''.txt'' None None Flat = ''.txt'' \<and>
   sanitizePathComponents [] = ([], ''untitled'') \<and>
   fst (getUniqueFileName [] (Str ''python'') 0 [] False) = ''1_untitled.py''"
proof -
  have "PathComposer_compose [] ''.txt'' None None Flat = ''.txt''"
    by code_simp
  moreover
  have "sanitizePathComponents [] = ([], ''untitled'')"
    by code_simp
  moreover have "fst (getUniqueFileName [] (Str ''python'') 0 [] False) = ''1_untitled.py''"
    by code_simp
  ultimately show ?thesis by simp
qed

section \<open>Collisions in the directory layout\<close>




end
